theory Spec2Isabelle
  imports Complex_Main "HOL-Library.Word" "HOL-Library.Log_Nat"
begin

unbundle bit_operations_syntax

section \<open>Common data\<close>

type_synonym byte = "8 word"
type_synonym int16 = "16 word"

text \<open>
  The two scripts raise no exception of their own: every failure is a built-in
  exception of Python or NumPy.  One constructor per place where the code can raise.
  \<^item> \<open>IndexError\<close>: \<^verbatim>\<open>filename[0]\<close> or \<^verbatim>\<open>filename[3]\<close> past the end of the string;
  \<^item> \<open>ValueError_int\<close>: \<^verbatim>\<open>int(...)\<close> on a string that is not an integer literal;
  \<^item> \<open>ValueError_reshape\<close>: \<^verbatim>\<open>data.reshape((nrows, ncols))\<close> on a wrong number of samples;
  \<^item> \<open>ValueError_zero_size\<close>: \<^verbatim>\<open>valid_data.min()\<close> on an empty array;
  \<^item> \<open>ZeroDivisionError\<close>: Python's \<^verbatim>\<open>/\<close> on integers with divisor 0;
  \<^item> \<open>OverflowError\<close>: an integer, or a quotient of integers, too large for a float.
\<close>

datatype error =
    IndexError
  | ValueError_int
  | ValueError_reshape
  | ValueError_zero_size
  | ZeroDivisionError
  | OverflowError

section \<open>hgt_to_geotiff.py: reading the samples (lines 43 to 54)\<close>

text \<open>
  \<^verbatim>\<open>np.fromfile(hgt_file, dtype='>i2')\<close>: the file is read as items of two bytes, the
  first byte being the high one; the number of items is the file size divided by the
  item size, so a trailing odd byte is not read.
\<close>

fun fromfile_be_i2 :: "byte list \<Rightarrow> int16 list" where
  "fromfile_be_i2 (hi # lo # rest) = (push_bit 8 (ucast hi) OR ucast lo) # fromfile_be_i2 rest"
| "fromfile_be_i2 _ = []"

text \<open>
  \<^verbatim>\<open>data.reshape((nrows, ncols))\<close>: row \<open>r\<close> is the slice of \<open>ncols\<close> samples that starts
  at \<open>r * ncols\<close>; NumPy raises ValueError when the sizes do not agree.
\<close>

definition reshape :: "nat \<Rightarrow> nat \<Rightarrow> 'a list \<Rightarrow> error + 'a list list" where
  "reshape nrows ncols data =
     (if length data = nrows * ncols
      then Inr (map (\<lambda>r. take ncols (drop (r * ncols) data)) [0..<nrows])
      else Inl ValueError_reshape)"

text \<open>\<^verbatim>\<open>np.flipud\<close> reverses the order of the rows.\<close>

definition flipud :: "'a list list \<Rightarrow> 'a list list" where
  "flipud rows = rev rows"

text \<open>
  Lines 45 to 54 with the two dimensions as parameters; the script fixes both at 3601.
  \<^verbatim>\<open>astype(np.int16)\<close> changes the byte order of the storage, not the values.
\<close>

definition read_elevation :: "nat \<Rightarrow> nat \<Rightarrow> byte list \<Rightarrow> error + int16 list list" where
  "read_elevation nrows ncols buf =
     (case reshape nrows ncols (fromfile_be_i2 buf) of
        Inl e \<Rightarrow> Inl e
      | Inr elevation \<Rightarrow> Inr (flipud elevation))"

text \<open>The spec's name for the failure of the Tile Decoder on a buffer of the wrong size.\<close>

definition TruncatedInput :: "error \<Rightarrow> bool" where
  "TruncatedInput e = (e = ValueError_reshape)"

text \<open>Row \<open>i\<close> of the input file: its \<open>2 * ncols\<close> bytes, decoded.\<close>

definition input_row :: "nat \<Rightarrow> byte list \<Rightarrow> nat \<Rightarrow> int16 list" where
  "input_row ncols buf i = fromfile_be_i2 (take (2 * ncols) (drop (i * (2 * ncols)) buf))"

text \<open>The value of the big-endian pair \<open>hi, lo\<close> as a signed 16-bit integer.\<close>

definition be_i2_value :: "byte \<Rightarrow> byte \<Rightarrow> int" where
  "be_i2_value hi lo =
     (let v = 256 * uint hi + uint lo in if v < 32768 then v else v - 65536)"


section \<open>Floating point: binary64\<close>

text \<open>
  Both scripts compute with NumPy's \<^verbatim>\<open>float64\<close> and Python's \<^verbatim>\<open>float\<close>, which is IEEE 754
  binary64.  A finite value is modelled by the rational number it denotes; the two zeros
  are one value (the only division by zero in the scripts has the divisor \<open>+0.0\<close>, an
  integer 0 converted, and no other operation used here tells the zeros apart).
\<close>

datatype float64 = Finite rat | PInf | NInf | NaN

text \<open>\<open>ilog2 x\<close> is the exponent of \<open>x > 0\<close>: the integer \<open>e\<close> with \<open>2^e \<le> x < 2^(e+1)\<close>.\<close>

definition ilog2 :: "rat \<Rightarrow> int" where
  "ilog2 x =
     (if 1 \<le> x then bitlen \<lfloor>x\<rfloor> - 1
      else (let j = bitlen \<lfloor>1 / x\<rfloor> - 1
            in if x * power_int 2 j = 1 then - j else - j - 1))"

text \<open>The nearest integer, a tie going to the even one.\<close>

definition round_half_even :: "rat \<Rightarrow> int" where
  "round_half_even r =
     (let n = \<lfloor>r\<rfloor>; f = r - of_int n
      in if f < 1 / 2 then n else if 1 / 2 < f then n + 1 else if even n then n else n + 1)"

text \<open>
  Rounding of an exact result to binary64, to nearest with ties to even: the significand
  has 53 bits, so the spacing of the values around \<open>x\<close> is \<open>2^(e - 52)\<close> for the exponent
  \<open>e\<close> of \<open>x\<close>, and never less than \<open>2^(-1074)\<close> (the subnormal numbers); a result of
  magnitude \<open>2^1024\<close> or more overflows to an infinity.
\<close>

definition round64 :: "rat \<Rightarrow> float64" where
  "round64 x =
     (if x = 0 then Finite 0
      else let u = power_int 2 (max (ilog2 \<bar>x\<bar> - 52) (- 1074));
               y = of_int (round_half_even (x / u)) * u
           in if 2 ^ 1024 \<le> \<bar>y\<bar> then (if 0 < x then PInf else NInf) else Finite y)"




text \<open>The product of an infinity and a finite value: by the sign, and NaN for zero.\<close>

definition inf_times :: "bool \<Rightarrow> rat \<Rightarrow> float64" where
  "inf_times positive y =
     (if y = 0 then NaN else if (0 < y) = positive then PInf else NInf)"

fun fmul :: "float64 \<Rightarrow> float64 \<Rightarrow> float64" where
  "fmul (Finite x) (Finite y) = round64 (x * y)"
| "fmul NaN _ = NaN"
| "fmul _ NaN = NaN"
| "fmul PInf (Finite y) = inf_times True y"
| "fmul NInf (Finite y) = inf_times False y"
| "fmul (Finite x) PInf = inf_times True x"
| "fmul (Finite x) NInf = inf_times False x"
| "fmul PInf PInf = PInf"
| "fmul NInf NInf = PInf"
| "fmul PInf NInf = NInf"
| "fmul NInf PInf = NInf"

fun fdiv :: "float64 \<Rightarrow> float64 \<Rightarrow> float64" where
  "fdiv (Finite x) (Finite y) =
     (if y = 0 then (if x = 0 then NaN else if 0 < x then PInf else NInf)
      else round64 (x / y))"
| "fdiv NaN _ = NaN"
| "fdiv _ NaN = NaN"
| "fdiv (Finite x) PInf = Finite 0"
| "fdiv (Finite x) NInf = Finite 0"
| "fdiv PInf (Finite y) = (if 0 \<le> y then PInf else NInf)"
| "fdiv NInf (Finite y) = (if 0 \<le> y then NInf else PInf)"
| "fdiv PInf PInf = NaN"
| "fdiv PInf NInf = NaN"
| "fdiv NInf PInf = NaN"
| "fdiv NInf NInf = NaN"

text \<open>
  Python's \<^verbatim>\<open>float(n)\<close> of an integer (also the conversion of an integer operand of a
  float operation) and Python's \<^verbatim>\<open>a / b\<close> on integers: both round correctly, and raise
  where binary64 would overflow.
\<close>

definition float_of_int :: "int \<Rightarrow> error + float64" where
  "float_of_int n =
     (case round64 (of_int n) of Finite x \<Rightarrow> Inr (Finite x) | _ \<Rightarrow> Inl OverflowError)"

definition py_truediv :: "int \<Rightarrow> int \<Rightarrow> error + float64" where
  "py_truediv a b =
     (if b = 0 then Inl ZeroDivisionError
      else case round64 (of_int a / of_int b) of
             Finite x \<Rightarrow> Inr (Finite x)
           | _ \<Rightarrow> Inl OverflowError)"

section \<open>hgt_to_geotiff.py: the bounds of the tile (lines 16 to 37)\<close>

text \<open>
  A Python string is modelled as a \<open>string\<close> whose characters are the code points below
  256.  Line 16: the part of the path after the last \<^verbatim>\<open>/\<close>, with every occurrence of
  \<^verbatim>\<open>.hgt\<close> removed.
\<close>

fun remove_hgt :: "string \<Rightarrow> string" where
  "remove_hgt [] = []"
| "remove_hgt (c # cs) =
     (if take 4 (c # cs) = ''.hgt'' then remove_hgt (drop 3 cs) else c # remove_hgt cs)"

definition tile_filename :: "string \<Rightarrow> string" where
  "tile_filename hgt_file =
     remove_hgt (rev (takeWhile (\<lambda>c. c \<noteq> CHR ''/'') (rev hgt_file)))"

text \<open>
  Python's \<^verbatim>\<open>int(s)\<close> in base 10: white space is stripped on both sides, one sign may
  come first, then decimal digits, where single underscores may stand between digits.
\<close>

definition py_isspace :: "char \<Rightarrow> bool" where
  "py_isspace c =
     (let n = (of_char c :: nat)
      in (9 \<le> n \<and> n \<le> 13) \<or> (28 \<le> n \<and> n \<le> 32) \<or> n = 133 \<or> n = 160)"

definition is_digit :: "char \<Rightarrow> bool" where
  "is_digit c = (48 \<le> (of_char c :: nat) \<and> (of_char c :: nat) \<le> 57)"

definition digit_val :: "char \<Rightarrow> int" where
  "digit_val c = int (of_char c) - 48"

definition py_strip :: "string \<Rightarrow> string" where
  "py_strip s = rev (dropWhile py_isspace (rev (dropWhile py_isspace s)))"

text \<open>The digits after the first one; \<open>n\<close> is the value read so far.\<close>

fun py_digits_from :: "int \<Rightarrow> string \<Rightarrow> int option" where
  "py_digits_from n [] = Some n"
| "py_digits_from n (c # cs) =
     (if is_digit c then py_digits_from (10 * n + digit_val c) cs
      else if c = CHR ''_'' then
        (case cs of
           [] \<Rightarrow> None
         | d # ds \<Rightarrow> if is_digit d then py_digits_from (10 * n + digit_val d) ds else None)
      else None)"

definition py_digits :: "string \<Rightarrow> int option" where
  "py_digits s =
     (case s of
        [] \<Rightarrow> None
      | c # cs \<Rightarrow> if is_digit c then py_digits_from (digit_val c) cs else None)"

definition py_int :: "string \<Rightarrow> int option" where
  "py_int s =
     (case py_strip s of
        [] \<Rightarrow> None
      | c # cs \<Rightarrow>
          if c = CHR ''-'' then map_option uminus (py_digits cs)
          else if c = CHR ''+'' then py_digits cs
          else py_digits (c # cs))"

record GeoBounds =
  west :: int
  south :: int
  east :: int
  north :: int

text \<open>
  Lines 19 to 37.  \<^verbatim>\<open>filename[0]\<close> and \<^verbatim>\<open>filename[3]\<close> raise IndexError past the end of the
  string; the slices \<^verbatim>\<open>filename[1:3]\<close> and \<^verbatim>\<open>filename[4:7]\<close> never raise, they are shorter on
  a short string.  The statements run in the order of the source.
\<close>

definition tile_bounds :: "string \<Rightarrow> error + GeoBounds" where
  "tile_bounds filename =
     (if length filename < 1 then Inl IndexError
      else
        let lat_dir = filename ! 0
        in (case py_int (take 2 (drop 1 filename)) of
              None \<Rightarrow> Inl ValueError_int
            | Some lat_val \<Rightarrow>
                if length filename < 4 then Inl IndexError
                else
                  let lon_dir = filename ! 3
                  in (case py_int (take 3 (drop 4 filename)) of
                        None \<Rightarrow> Inl ValueError_int
                      | Some lon_val \<Rightarrow>
                          let (south, north) =
                                (if lat_dir = CHR ''S'' then (- lat_val, - lat_val + 1)
                                 else (lat_val, lat_val + 1));
                              (west, east) =
                                (if lon_dir = CHR ''W'' then (- lon_val, - lon_val + 1)
                                 else (lon_val, lon_val + 1))
                          in Inr \<lparr>west = west, south = south, east = east,
                                   north = north\<rparr>)))"


text \<open>
  The fixed pattern of the spec: seven characters, a letter N or S, two digits, a letter
  E or W, three digits.
\<close>

definition matches_pattern :: "string \<Rightarrow> bool" where
  "matches_pattern s =
     (length s = 7 \<and> (s ! 0 = CHR ''N'' \<or> s ! 0 = CHR ''S'') \<and> is_digit (s ! 1) \<and>
      is_digit (s ! 2) \<and> (s ! 3 = CHR ''E'' \<or> s ! 3 = CHR ''W'') \<and> is_digit (s ! 4) \<and>
      is_digit (s ! 5) \<and> is_digit (s ! 6))"

text \<open>
  The box that the spec assigns to an identifier of the pattern: the magnitudes are the
  decimal numbers at the positions 1 to 2 and 4 to 6, negated for the letters S and W, and
  the box is one degree wide and high.
\<close>

definition pattern_bounds :: "string \<Rightarrow> GeoBounds" where
  "pattern_bounds s =
     (let lat = 10 * digit_val (s ! 1) + digit_val (s ! 2);
          lon = 100 * digit_val (s ! 4) + 10 * digit_val (s ! 5) + digit_val (s ! 6);
          so = (if s ! 0 = CHR ''S'' then - lat else lat);
          we = (if s ! 3 = CHR ''W'' then - lon else lon)
      in \<lparr>west = we, south = so, east = we + 1, north = so + 1\<rparr>)"

section \<open>hgt_to_geotiff.py: the affine transform (lines 56 to 61)\<close>

text \<open>
  rasterio's \<^verbatim>\<open>from_origin(west, north, xsize, ysize)\<close> is the matrix
  \<^verbatim>\<open>Affine(xsize, 0, west, 0, -ysize, north)\<close>; the record keeps its four arguments under the
  names the spec gives them.
\<close>

record AffineTransform =
  origin_x :: float64
  origin_y :: float64
  pixel_width :: float64
  pixel_height :: float64

definition from_origin :: "int \<Rightarrow> int \<Rightarrow> float64 \<Rightarrow> float64 \<Rightarrow> error + AffineTransform" where
  "from_origin west_edge north_edge xsize ysize =
     (case float_of_int west_edge of
        Inl e \<Rightarrow> Inl e
      | Inr ox \<Rightarrow>
     (case float_of_int north_edge of
        Inl e \<Rightarrow> Inl e
      | Inr oy \<Rightarrow>
          Inr \<lparr>origin_x = ox, origin_y = oy, pixel_width = xsize, pixel_height = ysize\<rparr>))"

text \<open>Lines 57 to 61, with the dimensions as parameters (3601 and 3601 in the script).\<close>

definition affine_transform :: "GeoBounds \<Rightarrow> nat \<Rightarrow> nat \<Rightarrow> error + AffineTransform" where
  "affine_transform b nrows ncols =
     (case py_truediv (east b - west b) (int ncols) of
        Inl e \<Rightarrow> Inl e
      | Inr xsize \<Rightarrow>
     (case py_truediv (north b - south b) (int nrows) of
        Inl e \<Rightarrow> Inl e
      | Inr ysize \<Rightarrow> from_origin (west b) (north b) xsize ysize))"


section \<open>hgt_to_geotiff.py: the whole conversion\<close>

text \<open>What the script hands to rasterio: the arguments of \<^verbatim>\<open>rasterio.open\<close> and the band.\<close>

record GeoTIFF =
  tif_height :: nat
  tif_width :: nat
  tif_transform :: AffineTransform
  tif_nodata :: int
  tif_band :: "int16 list list"

definition hgt_to_geotiff :: "string \<Rightarrow> byte list \<Rightarrow> error + GeoTIFF" where
  "hgt_to_geotiff hgt_file contents =
     (let filename = tile_filename hgt_file; nrows = 3601; ncols = 3601 in
      case tile_bounds filename of
        Inl e \<Rightarrow> Inl e
      | Inr bounds \<Rightarrow>
     (case read_elevation nrows ncols contents of
        Inl e \<Rightarrow> Inl e
      | Inr elevation \<Rightarrow>
     (case affine_transform bounds nrows ncols of
        Inl e \<Rightarrow> Inl e
      | Inr t \<Rightarrow>
          Inr \<lparr>tif_height = nrows, tif_width = ncols, tif_transform = t,
               tif_nodata = - 32768, tif_band = elevation\<rparr>)))"

section \<open>dem_to_heightmap.py\<close>

text \<open>
  \<^verbatim>\<open>valid_data.min()\<close> and \<^verbatim>\<open>valid_data.max()\<close> on a non-empty array of int16: the least and
  the greatest sample, compared as signed numbers.
\<close>

definition amin :: "int16 list \<Rightarrow> int16" where
  "amin xs = fold (\<lambda>x m. if x <s m then x else m) (tl xs) (hd xs)"

definition amax :: "int16 list \<Rightarrow> int16" where
  "amax xs = fold (\<lambda>x m. if m <s x then x else m) (tl xs) (hd xs)"

text \<open>
  \<^verbatim>\<open>a / b\<close> on int16 operands is NumPy's \<^verbatim>\<open>true_divide\<close>: both are converted to float64,
  exactly, and divided there; a zero divisor gives an infinity or NaN and a warning, not
  an exception.
\<close>

definition true_divide :: "int16 \<Rightarrow> int16 \<Rightarrow> float64" where
  "true_divide a b = fdiv (Finite (of_int (sint a))) (Finite (of_int (sint b)))"

text \<open>
  \<^verbatim>\<open>astype(np.uint8)\<close> on a float64 is the conversion of C: the fraction is dropped, and
  the result is defined only if the integer left is one of 0 to 255.  For every other
  value, and for the infinities and NaN, C leaves the behaviour undefined and NumPy warns:
  the byte stored depends on the platform.  \<open>None\<close> is a pixel that the source does not
  determine.
\<close>

type_synonym pixel = "8 word option"

fun astype_uint8 :: "float64 \<Rightarrow> pixel" where
  "astype_uint8 (Finite x) =
     (let t = (if 0 \<le> x then \<lfloor>x\<rfloor> else \<lceil>x\<rceil>)
      in if 0 \<le> t \<and> t \<le> 255 then Some (word_of_int t) else None)"
| "astype_uint8 _ = None"

text \<open>
  Line 21, \<^verbatim>\<open>profile.get('nodata', -32768)\<close>: \<open>profile_nodata\<close> is the entry \<^verbatim>\<open>'nodata'\<close> of
  the profile, \<open>None\<close> when the profile has none.
\<close>

definition nodata_value :: "int option \<Rightarrow> int" where
  "nodata_value profile_nodata = (case profile_nodata of None \<Rightarrow> - 32768 | Some v \<Rightarrow> v)"

text \<open>
  Lines 21 to 34; \<open>elevation\<close> is band 1, an array of int16.  The two subtractions of line
  34 are subtractions of int16 and wrap around.
\<close>

definition dem_to_heightmap :: "int option \<Rightarrow> int16 list list \<Rightarrow> error + pixel list list" where
  "dem_to_heightmap profile_nodata elevation =
     (let nodata = nodata_value profile_nodata;
          valid_data = filter (\<lambda>s. sint s \<noteq> nodata) (concat elevation)
      in if valid_data = [] then Inl ValueError_zero_size
         else
           let min_elev = amin valid_data;
               max_elev = amax valid_data
           in Inr (map (map (\<lambda>s.
                 if sint s \<noteq> nodata
                 then astype_uint8
                        (fmul (true_divide (s - min_elev) (max_elev - min_elev)) (Finite 255))
                 else Some 0)) elevation))"


section \<open>Facts about reading the samples\<close>

lemma length_fromfile_be_i2: "length (fromfile_be_i2 buf) = length buf div 2"
  by (induction buf rule: fromfile_be_i2.induct) simp_all

lemma fromfile_be_i2_take:
  "fromfile_be_i2 (take (2 * n) buf) = take n (fromfile_be_i2 buf)"
proof (induction buf arbitrary: n rule: fromfile_be_i2.induct)
  case (1 hi lo rest)
  show ?case
  proof (cases n)
    case 0
    then show ?thesis by simp
  next
    case (Suc m)
    then show ?thesis using "1.IH" [of m] by simp
  qed
qed (simp_all add: take_Cons')

lemma fromfile_be_i2_drop:
  "fromfile_be_i2 (drop (2 * n) buf) = drop n (fromfile_be_i2 buf)"
proof (induction buf arbitrary: n rule: fromfile_be_i2.induct)
  case (1 hi lo rest)
  show ?case
  proof (cases n)
    case 0
    then show ?thesis by simp
  next
    case (Suc m)
    then show ?thesis using "1.IH" [of m] by simp
  qed
qed (simp_all add: drop_Cons')

lemma input_row_eq:
  "input_row ncols buf i = take ncols (drop (i * ncols) (fromfile_be_i2 buf))"
proof -
  have "i * (2 * ncols) = 2 * (i * ncols)" by simp
  then show ?thesis
    unfolding input_row_def by (simp only: fromfile_be_i2_take fromfile_be_i2_drop)
qed

lemma uint_be_i2:
  "uint (push_bit 8 (ucast (hi :: byte)) OR ucast (lo :: byte) :: int16) = 256 * uint hi + uint lo"
proof -
  have d: "push_bit 8 (ucast hi) OR ucast lo = (push_bit 8 (ucast hi) + ucast lo :: int16)"
    by (rule disjunctive_add [symmetric]) (auto simp: bit_simps dest: bit_imp_le_length)
  have a: "uint (ucast lo :: int16) = uint lo" and a': "uint (ucast hi :: int16) = uint hi"
    by (simp_all add: uint_up_ucast is_up)
  have hb: "0 \<le> uint hi" "uint hi < 256" and lb: "0 \<le> uint lo" "uint lo < 256"
    using uint_lt2p [of hi] uint_lt2p [of lo] by simp_all
  have b: "uint (push_bit 8 (ucast hi :: int16)) = 256 * uint hi"
    using hb by (simp add: push_bit_eq_mult uint_word_ariths a')
  show ?thesis
    unfolding d using a b hb lb by (simp add: uint_word_ariths)
qed

lemma sint_int16: "sint (w :: int16) = (if uint w < 32768 then uint w else uint w - 65536)"
proof -
  have s: "sint w = (uint w + 32768) mod 65536 - 32768"
    using int_word_sint [of "uint w", where ?'a = 16] by simp
  have lo: "0 \<le> uint w" and hi: "uint w < 65536"
    using uint_lt2p [of w] by simp_all
  show ?thesis
  proof (cases "uint w < 32768")
    case True
    then show ?thesis using lo s by simp
  next
    case False
    have "uint w + 32768 = (uint w - 32768) + 65536"
      by simp
    then have "(uint w + 32768) mod 65536 = (uint w - 32768) mod 65536"
      by (simp only: mod_add_self2)
    also have "\<dots> = uint w - 32768"
      using False hi by simp
    finally show ?thesis
      using False s by simp
  qed
qed

lemma sint_be_i2:
  "sint (push_bit 8 (ucast (hi :: byte)) OR ucast (lo :: byte) :: int16) = be_i2_value hi lo"
  by (simp only: sint_int16 uint_be_i2 be_i2_value_def Let_def)

lemma fromfile_be_i2_nth:
  "i < length buf div 2 \<Longrightarrow>
     fromfile_be_i2 buf ! i = push_bit 8 (ucast (buf ! (2 * i))) OR ucast (buf ! (2 * i + 1))"
proof (induction buf arbitrary: i rule: fromfile_be_i2.induct)
  case (1 hi lo rest)
  then show ?case by (cases i) simp_all
qed simp_all

lemma reshape_Inr:
  "length data = nrows * ncols \<Longrightarrow>
     reshape nrows ncols data = Inr (map (\<lambda>r. take ncols (drop (r * ncols) data)) [0..<nrows])"
  by (simp add: reshape_def)

lemma reshape_Inl:
  "length data \<noteq> nrows * ncols \<Longrightarrow> reshape nrows ncols data = Inl ValueError_reshape"
  by (simp add: reshape_def)

lemma read_elevation_Inr:
  assumes "length buf div 2 = nrows * ncols"
  shows "read_elevation nrows ncols buf =
           Inr (rev (map (input_row ncols buf) [0..<nrows]))"
  using assms
  by (simp add: read_elevation_def reshape_Inr length_fromfile_be_i2 flipud_def input_row_eq)

lemma read_elevation_Inl:
  assumes "length buf div 2 \<noteq> nrows * ncols"
  shows "read_elevation nrows ncols buf = Inl ValueError_reshape"
  using assms by (simp add: read_elevation_def reshape_Inl length_fromfile_be_i2)

lemma fromfile_be_i2_replicate_odd:
  "fromfile_be_i2 (replicate (2 * n + 1) 0) = replicate n 0"
  by (induction n) simp_all

lemma rows_of_replicate:
  "map (\<lambda>r. take ncols (drop (r * ncols) (replicate (nrows * ncols) x))) [0..<nrows] =
     replicate nrows (replicate ncols x)"
proof -
  have "min ncols (nrows * ncols - r * ncols) = ncols" if "r < nrows" for r
  proof -
    have "r * ncols + ncols \<le> nrows * ncols"
      using that by (metis Suc_leI mult_Suc mult_le_mono1 add.commute)
    then show ?thesis by simp
  qed
  then show ?thesis
    by (intro nth_equalityI) simp_all
qed

lemma reshape_replicate:
  "reshape nrows ncols (replicate (nrows * ncols) x) = Inr (replicate nrows (replicate ncols x))"
  by (simp only: reshape_def length_replicate rows_of_replicate simp_thms if_True)

section \<open>The claims about the Tile Decoder\<close>

text \<open>
  Claim C6.  Every pair of bytes is decoded as a big-endian signed 16-bit integer: sample
  \<open>i\<close> of the file is the value of the bytes \<open>2 i\<close> and \<open>2 i + 1\<close>, the first being the
  high byte.  The model has no host byte order on which the result could depend.  The
  buffer 0x00 0x01 0xFF 0xFF, read as one row of two columns, gives the samples 1 and -1.
\<close>

theorem C6_big_endian_samples:
  "(\<forall>buf i. i < length buf div 2 \<longrightarrow>
      sint (fromfile_be_i2 buf ! i) = be_i2_value (buf ! (2 * i)) (buf ! (2 * i + 1))) \<and>
   map_sum id (map (map sint)) (read_elevation 1 2 [0x00, 0x01, 0xFF, 0xFF]) = Inr [[1, - 1]]"
proof -
  have "read_elevation 1 2 [0x00, 0x01, 0xFF, 0xFF] = Inr [[1, - 1]]"
    by (simp add: read_elevation_def reshape_def flipud_def)
  then show ?thesis
    by (simp add: fromfile_be_i2_nth sint_be_i2)
qed

theorem C6_big_endian_samples_witness:
  "sint (fromfile_be_i2 [0x00, 0x01, 0xFF, 0xFF] ! 1) = - 1 \<and>
   sint (fromfile_be_i2 [0x00, 0x01, 0xFF, 0xFF] ! 0) = 1"
proof -
  have "(1::nat) < length [0x00, 0x01, 0xFF, 0xFF :: byte] div 2"
    and "(0::nat) < length [0x00, 0x01, 0xFF, 0xFF :: byte] div 2"
    by simp_all
  then show ?thesis
    using C6_big_endian_samples by (simp add: be_i2_value_def)
qed

text \<open>
  Claim C7.  For a buffer of \<open>2 * rows * cols\<close> bytes the decoder succeeds with \<open>rows\<close>
  rows, and its row \<open>r\<close> is row \<open>rows - 1 - r\<close> of the input: the order of the rows is
  reversed, so the first row of the result is the last row of the file.
\<close>

theorem C7_rows_reversed:
  assumes "length buf = 2 * (nrows * ncols)"
  shows "\<exists>out. read_elevation nrows ncols buf = Inr out \<and> length out = nrows \<and>
           (\<forall>r<nrows. out ! r = input_row ncols buf (nrows - 1 - r))"
proof -
  have "length buf div 2 = nrows * ncols"
    using assms by simp
  then have "read_elevation nrows ncols buf =
               Inr (rev (map (input_row ncols buf) [0..<nrows]))"
    by (rule read_elevation_Inr)
  moreover have "rev (map (input_row ncols buf) [0..<nrows]) ! r =
                   input_row ncols buf (nrows - 1 - r)" if "r < nrows" for r
    using that by (simp add: rev_nth)
  ultimately show ?thesis by simp
qed

theorem C7_rows_reversed_witness:
  "\<exists>out. read_elevation 2 1 [0x00, 0x01, 0x00, 0x02] = Inr out \<and> length out = 2 \<and>
     out ! 0 = [2] \<and> out ! 1 = [1]"
proof -
  have "length [0x00, 0x01, 0x00, 0x02 :: byte] = 2 * (2 * 1)"
    by simp
  from C7_rows_reversed [OF this] obtain out
    where "read_elevation 2 1 [0x00, 0x01, 0x00, 0x02] = Inr out" "length out = 2"
      and r: "\<forall>r<2. out ! r = input_row 1 [0x00, 0x01, 0x00, 0x02] (2 - 1 - r)"
    by blast
  moreover have "out ! 0 = [2]" "out ! 1 = [1]"
    using r by (simp_all add: input_row_def)
  ultimately show ?thesis by blast
qed

text \<open>
  Claim C5, as stated: every buffer whose length is not exactly \<open>3601 * 3601 * 2\<close> bytes
  makes the decoder fail with TruncatedInput.  It fails on the code: a buffer with one byte
  more is accepted, because the file is read in whole items of two bytes.
\<close>

theorem C5_counterexample:
  "length (replicate 25934403 (0::byte)) \<noteq> 3601 * 3601 * 2 \<and>
   read_elevation 3601 3601 (replicate 25934403 0) = Inr (replicate 3601 (replicate 3601 0))"
proof -
  have n: "(25934403::nat) = 2 * (3601 * 3601) + 1"
    by simp
  have f: "fromfile_be_i2 (replicate 25934403 0) = replicate (3601 * 3601) 0"
    unfolding n by (rule fromfile_be_i2_replicate_odd)
  have r: "reshape 3601 3601 (replicate (3601 * 3601) (0::int16)) =
          Inr (replicate 3601 (replicate 3601 0))"
    by (rule reshape_replicate)
  have "read_elevation 3601 3601 (replicate 25934403 0) = Inr (replicate 3601 (replicate 3601 0))"
    by (simp only: read_elevation_def f r sum.case flipud_def rev_replicate)
  moreover have "length (replicate 25934403 (0::byte)) \<noteq> 3601 * 3601 * 2"
    by simp
  ultimately show ?thesis by (rule conjI [rotated])
qed

text \<open>
  Claim C5, amended.  The decoder fails with TruncatedInput (the ValueError of reshape)
  exactly when the number of whole two-byte samples in the buffer, its length divided by
  two, differs from \<open>rows * cols\<close>: so for every buffer shorter than \<open>rows * cols * 2\<close>
  bytes and for every buffer longer by two bytes or more.  A buffer of that number of
  samples and one more byte is decoded.
\<close>

theorem C5_wrong_sample_count_fails:
  "(length buf div 2 \<noteq> nrows * ncols \<longrightarrow>
      (\<exists>e. read_elevation nrows ncols buf = Inl e \<and> TruncatedInput e)) \<and>
   (length buf div 2 = nrows * ncols \<longrightarrow> (\<exists>out. read_elevation nrows ncols buf = Inr out))"
  by (simp add: read_elevation_Inl read_elevation_Inr TruncatedInput_def)

theorem C5_wrong_sample_count_fails_witness:
  "(\<exists>e. read_elevation 1 2 [0x00, 0x01, 0xFF] = Inl e \<and> TruncatedInput e) \<and>
   (\<exists>e. read_elevation 1 2 [0x00, 0x01, 0xFF, 0xFF, 0x00, 0x07] = Inl e \<and> TruncatedInput e) \<and>
   (\<exists>out. read_elevation 1 2 [0x00, 0x01, 0xFF, 0xFF, 0x07] = Inr out)"
  using C5_wrong_sample_count_fails [of "[0x00, 0x01, 0xFF]" 1 2]
    C5_wrong_sample_count_fails [of "[0x00, 0x01, 0xFF, 0xFF, 0x00, 0x07]" 1 2]
    C5_wrong_sample_count_fails [of "[0x00, 0x01, 0xFF, 0xFF, 0x07]" 1 2]
  by simp

section \<open>Facts about the bounds of the tile\<close>

lemma is_digit_plain:
  assumes "is_digit c"
  shows "\<not> py_isspace c" "c \<noteq> CHR ''-''" "c \<noteq> CHR ''+''" "c \<noteq> CHR ''_''"
  using assms by (auto simp: is_digit_def py_isspace_def Let_def)

lemma py_int_two_digits:
  assumes "is_digit a" "is_digit b"
  shows "py_int [a, b] = Some (10 * digit_val a + digit_val b)"
  using assms by (simp add: py_int_def py_strip_def py_digits_def is_digit_plain)

lemma py_int_three_digits:
  assumes "is_digit a" "is_digit b" "is_digit c"
  shows "py_int [a, b, c] = Some (100 * digit_val a + 10 * digit_val b + digit_val c)"
  using assms by (simp add: py_int_def py_strip_def py_digits_def is_digit_plain)

lemma list_of_length_7:
  assumes "length s = 7"
  obtains c0 c1 c2 c3 c4 c5 c6 where "s = [c0, c1, c2, c3, c4, c5, c6]"
  using assms by (auto simp: eval_nat_numeral length_Suc_conv)

section \<open>The claims about the GeoBounds Resolver\<close>

text \<open>
  Claim C8.  For every identifier of the fixed pattern the resolver succeeds with the box
  of one degree: south is minus the latitude for the letter S and the latitude otherwise,
  north is south plus one, west is minus the longitude for the letter W and the longitude
  otherwise, east is west plus one.  The witness is the identifier S27E152 of the spec.
\<close>

theorem C8_bounds_of_pattern:
  assumes "matches_pattern s"
  shows "tile_bounds s = Inr (pattern_bounds s)"
proof -
  from assms have "length s = 7"
    by (simp add: matches_pattern_def)
  then obtain c0 c1 c2 c3 c4 c5 c6 where s: "s = [c0, c1, c2, c3, c4, c5, c6]"
    by (rule list_of_length_7)
  from assms have d: "is_digit c1" "is_digit c2" "is_digit c4" "is_digit c5" "is_digit c6"
    by (simp_all add: matches_pattern_def s)
  show ?thesis
    by (simp add: s tile_bounds_def pattern_bounds_def py_int_two_digits py_int_three_digits d
        Let_def)
qed

theorem C8_bounds_of_pattern_witness:
  "matches_pattern ''S27E152'' \<and>
   tile_bounds ''S27E152'' = Inr \<lparr>west = 152, south = - 27, east = 153, north = - 26\<rparr>"
proof -
  have m: "matches_pattern ''S27E152''"
    by (simp add: matches_pattern_def is_digit_def)
  show ?thesis
    using m C8_bounds_of_pattern [OF m] by (simp add: pattern_bounds_def digit_val_def)
qed




section \<open>Facts for evaluating binary64 operations on numerals\<close>

lemma floor_rat_numeral:
  "\<lfloor>numeral a / numeral b :: rat\<rfloor> = numeral a div numeral b"
  "\<lfloor>- (numeral a / numeral b) :: rat\<rfloor> = - numeral a div numeral b"
  "\<lfloor>1 / numeral b :: rat\<rfloor> = 1 div numeral b"
  "\<lfloor>- (1 / numeral b) :: rat\<rfloor> = - 1 div numeral b"
  using floor_divide_of_int_eq [of "numeral a" "numeral b", where ?'a = rat]
    floor_divide_of_int_eq [of "- numeral a" "numeral b", where ?'a = rat]
    floor_divide_of_int_eq [of 1 "numeral b", where ?'a = rat]
    floor_divide_of_int_eq [of "- 1" "numeral b", where ?'a = rat]
  by simp_all

lemma Let_rat_numeral:
  "Let (numeral a / numeral b :: rat) f = f (numeral a / numeral b)"
  "Let (- (numeral a / numeral b) :: rat) f = f (- (numeral a / numeral b))"
  "Let (1 / numeral b :: rat) f = f (1 / numeral b)"
  "Let (- (1 / numeral b) :: rat) f = f (- (1 / numeral b))"
  by (simp_all add: Let_def)

lemmas eval_round64 =
  round64_def ilog2_def compute_bitlen round_half_even_def power_int_minus
  floor_rat_numeral Let_rat_numeral

section \<open>Facts about the normalizer\<close>





lemma fold_smin_le:
  "sint (fold (\<lambda>x m. if x <s m then x else m) xs m0) \<le> sint m0 \<and>
   (\<forall>x\<in>set xs. sint (fold (\<lambda>x m. if x <s m then x else m) xs m0) \<le> sint x)"
proof (induction xs arbitrary: m0)
  case Nil
  then show ?case by simp
next
  case (Cons a xs)
  show ?case
    using Cons.IH [of a] Cons.IH [of m0] by (auto simp: word_sless_alt)
qed

lemma fold_smax_ge:
  "sint m0 \<le> sint (fold (\<lambda>x m. if m <s x then x else m) xs m0) \<and>
   (\<forall>x\<in>set xs. sint x \<le> sint (fold (\<lambda>x m. if m <s x then x else m) xs m0))"
proof (induction xs arbitrary: m0)
  case Nil
  then show ?case by simp
next
  case (Cons a xs)
  show ?case
    using Cons.IH [of a] Cons.IH [of m0] by (auto simp: word_sless_alt)
qed

lemma amin_le: "x \<in> set xs \<Longrightarrow> sint (amin xs) \<le> sint x"
  using fold_smin_le [where xs = "tl xs" and ?m0.0 = "hd xs"] by (cases xs) (auto simp: amin_def)

lemma amax_ge: "x \<in> set xs \<Longrightarrow> sint x \<le> sint (amax xs)"
  using fold_smax_ge [where xs = "tl xs" and ?m0.0 = "hd xs"] by (cases xs) (auto simp: amax_def)

section \<open>The claims about the Heightmap Normalizer\<close>





text \<open>
  Claim C3: every valid sample \<open>s\<close> gets the pixel \<open>floor ((s - min) / (max - min) * 255)\<close>
  and every nodata sample the pixel 0.  The samples of the spec, -32768 (nodata), 0, 100
  and 200, do get the pixels 0, 0, 127 and 255.  On a grid whose valid samples span more
  than 32767 the two subtractions of int16 overflow: for the samples -20000, 0 and 20000
  the difference \<open>max - min\<close> is -25536 instead of 40000, the sample 0 is scaled to about
  -199.7 instead of 127.5, and its conversion to uint8 is not defined.
\<close>

theorem C3_scaling_and_overflow:
  "dem_to_heightmap None [[- 32768, 0, 100, 200]] =
     Inr [[Some 0, Some 0, Some 127, Some 255]] \<and>
   dem_to_heightmap None [[- 20000, 0, 20000]] = Inr [[Some 0, None, Some 255]] \<and>
   sint (20000 - (- 20000) :: int16) = - 25536 \<and>
   fmul (true_divide (0 - (- 20000)) (20000 - (- 20000))) (Finite 255) =
     Finite (- (439184625756391 / 2199023255552))"
proof -
  have "dem_to_heightmap None [[- 32768, 0, 100, 200]] =
          Inr [[Some 0, Some 0, Some 127, Some 255]]"
    by (simp add: dem_to_heightmap_def nodata_value_def amin_def amax_def word_sless_alt
        true_divide_def eval_round64)
  moreover have "dem_to_heightmap None [[- 20000, 0, 20000]] = Inr [[Some 0, None, Some 255]]"
    by (simp add: dem_to_heightmap_def nodata_value_def amin_def amax_def word_sless_alt
        true_divide_def eval_round64)
  moreover have "sint (20000 - (- 20000) :: int16) = - 25536"
    by simp
  moreover have "fmul (true_divide (0 - (- 20000)) (20000 - (- 20000))) (Finite 255) =
                   Finite (- (439184625756391 / 2199023255552))"
    by (simp add: true_divide_def eval_round64)
  ultimately show ?thesis by (intro conjI)
qed

text \<open>
  Claim C10: of two valid samples \<open>a \<le> b\<close> the pixel of \<open>a\<close> is at most the pixel of \<open>b\<close>.
  Under the same overflow the scaled values fall as the samples rise: in the grid -20000,
  -19000, 0, 20000 the sample -19000 is scaled to about -9.98 and the sample 0 to about
  -199.7; both are outside the range of uint8, so neither pixel is determined.
\<close>

theorem C10_overflow_reverses_order:
  "dem_to_heightmap None [[- 20000, - 19000, 0, 20000]] =
     Inr [[Some 0, None, None, Some 255]] \<and>
   fmul (true_divide (- 19000 - (- 20000)) (20000 - (- 20000))) (Finite 255) =
     Finite (- (1405390802420451 / 140737488355328)) \<and>
   fmul (true_divide (0 - (- 20000)) (20000 - (- 20000))) (Finite 255) =
     Finite (- (439184625756391 / 2199023255552)) \<and>
   - (439184625756391 / 2199023255552) < - (1405390802420451 / 140737488355328 :: rat)"
proof -
  have "dem_to_heightmap None [[- 20000, - 19000, 0, 20000]] =
          Inr [[Some 0, None, None, Some 255]]"
    by (simp add: dem_to_heightmap_def nodata_value_def amin_def amax_def word_sless_alt
        true_divide_def eval_round64)
  moreover have "fmul (true_divide (- 19000 - (- 20000)) (20000 - (- 20000))) (Finite 255) =
                   Finite (- (1405390802420451 / 140737488355328))"
    by (simp add: true_divide_def eval_round64)
  moreover have "fmul (true_divide (0 - (- 20000)) (20000 - (- 20000))) (Finite 255) =
                   Finite (- (439184625756391 / 2199023255552))"
    by (simp add: true_divide_def eval_round64)
  moreover have "- (439184625756391 / 2199023255552) <
                   - (1405390802420451 / 140737488355328 :: rat)"
    by simp
  ultimately show ?thesis by (intro conjI)
qed

section \<open>Facts about rounding to binary64\<close>

lemma power_int_2_pos: "0 < power_int (2::rat) e"
  by (simp add: zero_less_power_int)

lemma bitlen_floor_bounds:
  fixes x :: rat
  assumes "1 \<le> x"
  shows "0 \<le> bitlen \<lfloor>x\<rfloor> - 1"
    and "power_int 2 (bitlen \<lfloor>x\<rfloor> - 1) \<le> x"
    and "x < power_int 2 (bitlen \<lfloor>x\<rfloor> - 1 + 1)"
proof -
  let ?n = "\<lfloor>x\<rfloor>"
  let ?e = "bitlen ?n - 1"
  have n: "0 < ?n" using assms by simp
  have b: "2 ^ nat ?e \<le> ?n" "?n < 2 ^ nat (bitlen ?n)"
    using bitlen_bounds [OF n] by simp_all
  have pos: "0 < bitlen ?n"
    using n by (metis bitlen_eq_zero_iff bitlen_nonneg le_less not_le)
  then show e0: "0 \<le> ?e" by simp
  have "power_int (2::rat) ?e = 2 ^ nat ?e"
    using e0 by (simp add: power_int_def)
  also have "\<dots> = of_int (2 ^ nat ?e)" by simp
  also have "\<dots> \<le> of_int ?n" using b(1) by (simp only: of_int_le_iff)
  also have "\<dots> \<le> x" by simp
  finally show "power_int 2 ?e \<le> x" .
  have "?n + 1 \<le> 2 ^ nat (bitlen ?n)" using b(2) by simp
  then have "(of_int (?n + 1) :: rat) \<le> of_int (2 ^ nat (bitlen ?n))"
    by (simp only: of_int_le_iff)
  moreover have "x < of_int (?n + 1)"
    using floor_correct [of x] by simp
  ultimately have "x < of_int (2 ^ nat (bitlen ?n))" by (rule less_le_trans [rotated])
  also have "\<dots> = power_int 2 (bitlen ?n)"
    using pos by (simp add: power_int_def)
  finally show "x < power_int 2 (?e + 1)" by simp
qed

lemma ilog2_bounds:
  assumes "0 < x"
  shows "power_int 2 (ilog2 x) \<le> x \<and> x < power_int 2 (ilog2 x + 1)"
proof (cases "1 \<le> x")
  case True
  then show ?thesis
    using bitlen_floor_bounds [OF True] by (simp add: ilog2_def)
next
  case False
  define j where "j = bitlen \<lfloor>1 / x\<rfloor> - 1"
  have inv: "1 \<le> 1 / x" using assms False by simp
  have j0: "0 \<le> j"
    and lo: "power_int 2 j \<le> 1 / x" and hi: "1 / x < power_int 2 (j + 1)"
    using bitlen_floor_bounds [OF inv] by (simp_all add: j_def)
  have pj: "0 < power_int (2::rat) j" "0 < power_int (2::rat) (j + 1)"
    by (rule power_int_2_pos)+
  have up: "x * power_int 2 j \<le> 1"
    using lo assms pj by (simp add: field_simps)
  have dn: "1 < x * power_int 2 (j + 1)"
    using hi assms pj by (simp add: field_simps)
  have m: "power_int (2::rat) (- j) * power_int 2 j = 1"
    "power_int (2::rat) (- j - 1) * power_int 2 (j + 1) = 1"
    by (simp_all add: power_int_add [symmetric])
  have le1: "x \<le> power_int 2 (- j)"
    using up pj(1) m(1) by (metis mult_le_cancel_right_pos)
  have gt1: "power_int 2 (- j - 1) < x"
    using dn pj(2) m(2) by (metis mult_less_cancel_right_pos)
  show ?thesis
  proof (cases "x * power_int 2 j = 1")
    case True
    have il: "ilog2 x = - j"
      using False True by (simp add: ilog2_def j_def [symmetric] Let_def)
    have "x = power_int 2 (- j)"
      using True m(1) pj(1) by (metis mult_cancel_right less_irrefl)
    moreover have "power_int (2::rat) (- j) < power_int 2 (- j + 1)"
      by (simp add: power_int_strict_increasing)
    ultimately show ?thesis
      unfolding il by simp
  next
    case ne: False
    have il: "ilog2 x = - j - 1"
      using False ne by (simp add: ilog2_def j_def [symmetric] Let_def)
    have "x \<noteq> power_int 2 (- j)"
      using ne m(1) by auto
    with le1 have "x < power_int 2 (- j)" by simp
    then show ?thesis
      unfolding il using gt1 by simp
  qed
qed

lemma round_half_even_error: "\<bar>of_int (round_half_even r) - r\<bar> \<le> 1 / 2"
proof -
  define f where "f = r - of_int \<lfloor>r\<rfloor>"
  have f: "0 \<le> f" "f < 1"
    using floor_correct [of r] by (simp_all add: f_def)
  have r: "r = of_int \<lfloor>r\<rfloor> + f"
    by (simp add: f_def)
  consider "f < 1 / 2" | "1 / 2 < f" | "f = 1 / 2"
    by linarith
  then show ?thesis
  proof cases
    case 1
    then have "round_half_even r = \<lfloor>r\<rfloor>"
      by (simp add: round_half_even_def Let_def f_def)
    then show ?thesis using 1 f r by simp
  next
    case 2
    then have "round_half_even r = \<lfloor>r\<rfloor> + 1"
      by (simp add: round_half_even_def Let_def f_def)
    then show ?thesis using 2 f r by simp
  next
    case 3
    then have "round_half_even r = \<lfloor>r\<rfloor> \<or> round_half_even r = \<lfloor>r\<rfloor> + 1"
      by (simp add: round_half_even_def Let_def f_def)
    then show ?thesis using 3 r by auto
  qed
qed


lemma power_int_2_less_cancel:
  assumes "power_int (2::rat) a < power_int 2 b"
  shows "a < b"
proof (rule ccontr)
  assume "\<not> a < b"
  then have "power_int (2::rat) b \<le> power_int 2 a"
    by (simp add: power_int_increasing)
  with assms show False by simp
qed

lemma ilog2_less:
  assumes "0 < x" and "x < power_int 2 b"
  shows "ilog2 x < b"
  using ilog2_bounds [OF assms(1)] assms(2) by (intro power_int_2_less_cancel) simp

lemma ilog2_ge:
  assumes "0 < x" and "power_int 2 a \<le> x"
  shows "a \<le> ilog2 x"
proof -
  have "power_int (2::rat) a < power_int 2 (ilog2 x + 1)"
    using ilog2_bounds [OF assms(1)] assms(2) by simp
  then have "a < ilog2 x + 1" by (rule power_int_2_less_cancel)
  then show ?thesis by simp
qed

text \<open>
  Away from overflow, the rounded value is a multiple of the spacing \<open>u\<close> and lies within
  half of it from the exact one.
\<close>

lemma round64_finite:
  assumes "x \<noteq> 0" and "\<bar>x\<bar> < 2 ^ 1023"
  defines "u \<equiv> power_int 2 (max (ilog2 \<bar>x\<bar> - 52) (- 1074))"
  shows "round64 x = Finite (of_int (round_half_even (x / u)) * u) \<and>
         \<bar>of_int (round_half_even (x / u)) * u - x\<bar> \<le> u / 2"
proof -
  define m where "m = round_half_even (x / u)"
  have u: "0 < u" by (simp add: u_def power_int_2_pos)
  have "\<bar>of_int m - x / u\<bar> \<le> 1 / 2"
    unfolding m_def by (rule round_half_even_error)
  then have "\<bar>of_int m - x / u\<bar> * u \<le> 1 / 2 * u"
    using u by (intro mult_right_mono) simp_all
  moreover have "\<bar>of_int m - x / u\<bar> * u = \<bar>of_int m * u - x\<bar>"
  proof -
    have "\<bar>of_int m - x / u\<bar> * u = \<bar>(of_int m - x / u) * u\<bar>"
      using u by (simp add: abs_mult)
    also have "(of_int m - x / u) * u = of_int m * u - x"
      using u by (simp add: field_simps)
    finally show ?thesis .
  qed
  ultimately have err: "\<bar>of_int m * u - x\<bar> \<le> u / 2" by simp
  have "ilog2 \<bar>x\<bar> < 1023"
    using assms by (intro ilog2_less) simp_all
  then have "max (ilog2 \<bar>x\<bar> - 52) (- 1074) \<le> 970" by simp
  then have "u \<le> power_int 2 970"
    unfolding u_def by (intro power_int_increasing) simp_all
  then have ub: "u \<le> 2 ^ 970" by simp
  have "\<bar>of_int m * u\<bar> \<le> \<bar>x\<bar> + u / 2"
    using err by linarith
  also have "\<dots> < 2 ^ 1023 + 2 ^ 970"
    using assms(2) ub u by linarith
  also have "\<dots> \<le> (2 ^ 1024 :: rat)" by simp
  finally have "\<not> 2 ^ 1024 \<le> \<bar>of_int m * u\<bar>" by simp
  then have "round64 x = Finite (of_int m * u)"
    using assms(1) by (simp add: round64_def Let_def u_def [symmetric] m_def [symmetric])
  with err show ?thesis by (simp add: m_def)
qed

text \<open>In the normal range the relative error is at most \<open>2^(-53)\<close>.\<close>

lemma round64_relative_error:
  assumes "1 / 2 ^ 1022 \<le> \<bar>x\<bar>" and "\<bar>x\<bar> < 2 ^ 1023"
  shows "\<exists>y. round64 x = Finite y \<and> \<bar>y - x\<bar> \<le> \<bar>x\<bar> / 2 ^ 53"
proof -
  define e where "e = ilog2 \<bar>x\<bar>"
  define u where "u = power_int (2::rat) (max (e - 52) (- 1074))"
  have "(0::rat) < 1 / 2 ^ 1022" by simp
  then have x0: "0 < \<bar>x\<bar>"
    using assms(1) by (rule less_le_trans)
  then have nz: "x \<noteq> 0" by simp
  have "power_int 2 (- 1022) \<le> \<bar>x\<bar>"
    using assms(1) by (simp add: power_int_minus_divide)
  then have "- 1022 \<le> e"
    unfolding e_def using x0 by (intro ilog2_ge)
  then have "max (e - 52) (- 1074) = e - 52" by simp
  then have "u = power_int 2 (e - 52)" by (simp add: u_def)
  also have "\<dots> = power_int 2 e / 2 ^ 52"
    by (simp add: power_int_diff)
  also have "\<dots> \<le> \<bar>x\<bar> / 2 ^ 52"
    using ilog2_bounds [OF x0] by (simp add: e_def divide_right_mono)
  finally have "u / 2 \<le> \<bar>x\<bar> / 2 ^ 53" by simp
  moreover have "round64 x = Finite (of_int (round_half_even (x / u)) * u) \<and>
                 \<bar>of_int (round_half_even (x / u)) * u - x\<bar> \<le> u / 2"
    using round64_finite [OF nz assms(2)] by (simp add: u_def e_def)
  ultimately show ?thesis by (intro exI [of _ "of_int (round_half_even (x / u)) * u"]) simp
qed


section \<open>Facts about the affine transform\<close>








section \<open>The claim about the Affine Transform Builder\<close>




end
